theory Spec2Isabelle
  imports Complex_Main "HOL-Library.Word" "HOL-Library.AList"
begin

section \<open>Text: Python strings as sequences of code points\<close>

text \<open>
  A Python \<^verbatim>\<open>str\<close> is a sequence of Unicode code points, so a string is a list of
  naturals, one per code point. \<open>ascii\<close> reads an ASCII literal as such a string.
\<close>

type_synonym str = "nat list"

definition ascii :: "string \<Rightarrow> str" where
  "ascii s = map of_char s"

text \<open>
  \<^verbatim>\<open>str.isspace\<close> on one code point; \<^verbatim>\<open>str.strip()\<close> with no argument and the class
  \<^verbatim>\<open>\s\<close> of \<^verbatim>\<open>re\<close> on a \<^verbatim>\<open>str\<close> pattern use the same set.
\<close>

definition isspace :: "nat \<Rightarrow> bool" where
  "isspace c = ((9 \<le> c \<and> c \<le> 13) \<or> (28 \<le> c \<and> c \<le> 32) \<or> c = 133 \<or> c = 160
      \<or> c = 5760 \<or> (8192 \<le> c \<and> c \<le> 8202) \<or> c = 8232 \<or> c = 8233 \<or> c = 8239
      \<or> c = 8287 \<or> c = 12288)"

text \<open>\<^verbatim>\<open>s.strip()\<close>: leading and trailing whitespace removed.\<close>

definition strip :: "str \<Rightarrow> str" where
  "strip s = rev (dropWhile isspace (rev (dropWhile isspace s)))"

text \<open>\<^verbatim>\<open>s.split('\n')\<close>: never empty, one more piece than there are newlines.\<close>

fun split_nl :: "str \<Rightarrow> str list" where
  "split_nl [] = [[]]"
| "split_nl (c # cs) =
     (if c = 10 then [] # split_nl cs
      else (case split_nl cs of [] \<Rightarrow> [[c]] | l # ls \<Rightarrow> (c # l) # ls))"

text \<open>\<^verbatim>\<open>'\n'.join(lines)\<close>.\<close>

fun join_nl :: "str list \<Rightarrow> str" where
  "join_nl [] = []"
| "join_nl [l] = l"
| "join_nl (l # ls) = l @ 10 # join_nl ls"

section \<open>Regular expressions\<close>

text \<open>
  The three patterns of the program are sequences of literals, anchors and quantified
  character classes. A pattern is a list of such atoms, matched by backtracking in the
  order of \<^verbatim>\<open>re\<close>: a greedy quantifier tries the longer match first, a lazy one the
  shorter. A match gives the text consumed by each atom, in order, and the rest of the
  subject; a capture group around one atom is that atom's text.
\<close>

datatype cclass = Dot | NotCh nat | Space

fun in_class :: "cclass \<Rightarrow> nat \<Rightarrow> bool" where
  "in_class Dot c = (c \<noteq> 10)"
| "in_class (NotCh x) c = (c \<noteq> x)"
| "in_class Space c = isspace c"

datatype atom = Lit nat | Star cclass | Plus cclass | LazyStar cclass | Bol | Eol

type_synonym matched = "str list \<times> str"

definition skip :: "matched option \<Rightarrow> matched option" where
  "skip m = map_option (\<lambda>(gs, r). ([] # gs, r)) m"

definition push :: "nat \<Rightarrow> matched option \<Rightarrow> matched option" where
  "push x m = map_option (\<lambda>(gs, r). (case gs of [] \<Rightarrow> [[x]] | g # gs' \<Rightarrow> (x # g) # gs', r)) m"

text \<open>
  \<open>rx p b s\<close> matches pattern \<open>p\<close> at the front of \<open>s\<close>; \<open>b\<close> says that \<open>s\<close> starts
  at the beginning of the subject (for \<^verbatim>\<open>^\<close>). \<^verbatim>\<open>$\<close> holds at the end of the subject and
  before a newline that ends it.
\<close>

fun rx :: "atom list \<Rightarrow> bool \<Rightarrow> str \<Rightarrow> matched option" where
  "rx [] b s = Some ([], s)"
| "rx (Bol # p) b s = (if b then skip (rx p b s) else None)"
| "rx (Eol # p) b s = (if s = [] \<or> s = [10] then skip (rx p b s) else None)"
| "rx (Lit c # p) b [] = None"
| "rx (Lit c # p) b (x # xs) =
     (if x = c then map_option (\<lambda>(gs, r). ([x] # gs, r)) (rx p False xs) else None)"
| "rx (Plus k # p) b [] = None"
| "rx (Plus k # p) b (x # xs) =
     (if in_class k x then push x (rx (Star k # p) False xs) else None)"
| "rx (Star k # p) b [] = skip (rx p b [])"
| "rx (Star k # p) b (x # xs) =
     (if in_class k x
      then (case push x (rx (Star k # p) False xs) of
              Some m \<Rightarrow> Some m
            | None \<Rightarrow> skip (rx p b (x # xs)))
      else skip (rx p b (x # xs)))"
| "rx (LazyStar k # p) b [] = skip (rx p b [])"
| "rx (LazyStar k # p) b (x # xs) =
     (case skip (rx p b (x # xs)) of
        Some m \<Rightarrow> Some m
      | None \<Rightarrow> if in_class k x then push x (rx (LazyStar k # p) False xs) else None)"

text \<open>\<^verbatim>\<open>re.match(p, s)\<close>: a match at position 0 only.\<close>

definition re_match :: "atom list \<Rightarrow> str \<Rightarrow> matched option" where
  "re_match p s = rx p True s"

text \<open>
  \<^verbatim>\<open>re.sub(p, repl, s)\<close> with a literal replacement: the leftmost match at each position
  is replaced and the scan goes on behind it; an empty match is replaced too and the scan
  moves one character on.
\<close>

function re_sub_from :: "atom list \<Rightarrow> str \<Rightarrow> bool \<Rightarrow> str \<Rightarrow> str" where
  "re_sub_from p repl b s =
     (case rx p b s of
        Some (gs, rest) \<Rightarrow>
          if length rest < length s then repl @ re_sub_from p repl False rest
          else (case s of [] \<Rightarrow> repl | c # cs \<Rightarrow> repl @ c # re_sub_from p repl False cs)
      | None \<Rightarrow> (case s of [] \<Rightarrow> [] | c # cs \<Rightarrow> c # re_sub_from p repl False cs))"
  by pat_completeness auto
termination
  by (relation "measure (\<lambda>(p, repl, b, s). length s)") auto

declare re_sub_from.simps [simp del]

definition re_sub :: "atom list \<Rightarrow> str \<Rightarrow> str \<Rightarrow> str" where
  "re_sub p repl s = re_sub_from p repl True s"

section \<open>The translator: tag stripping\<close>

text \<open>The pattern \<^verbatim>\<open>\[.*?\]\<close>.\<close>

definition tag_pattern :: "atom list" where
  "tag_pattern = [Lit 91, LazyStar Dot, Lit 93]"

text \<open>\<^verbatim>\<open>clean_tags_from_content\<close>: \<^verbatim>\<open>re.sub(r'\[.*?\]', '', content)\<close>.\<close>

definition clean_tags_from_content :: "str \<Rightarrow> str" where
  "clean_tags_from_content content = re_sub tag_pattern [] content"

text \<open>
  The specification's bracketed annotation, \<^verbatim>\<open>[...]\<close> with any content: an opening
  bracket with a closing bracket somewhere behind it.
\<close>

fun spec_bracketed :: "str \<Rightarrow> bool" where
  "spec_bracketed [] = False"
| "spec_bracketed (x # xs) = ((x = 91 \<and> 93 \<in> set xs) \<or> spec_bracketed xs)"

text \<open>
  The narrower notion: an opening bracket with a closing bracket behind it on the same
  line, that is, before the next newline.
\<close>

fun spec_bracketed_on_line :: "str \<Rightarrow> bool" where
  "spec_bracketed_on_line [] = False"
| "spec_bracketed_on_line (x # xs) =
     ((x = 91 \<and> 93 \<in> set (takeWhile (\<lambda>c. c \<noteq> 10) xs)) \<or> spec_bracketed_on_line xs)"

section \<open>The translator: counting dialogue lines\<close>

text \<open>The pattern \<^verbatim>\<open>^[^:]+:\s*.+$\<close>.\<close>

definition dialogue_pattern :: "atom list" where
  "dialogue_pattern = [Bol, Plus (NotCh 58), Lit 58, Star Space, Plus Dot, Eol]"

text \<open>The body of the loop of \<^verbatim>\<open>count_dialogues\<close> decides whether a line counts.\<close>

definition is_dialogue :: "str \<Rightarrow> bool" where
  "is_dialogue line0 =
     (let line = strip line0 in
      if line \<noteq> [] \<and> 58 \<in> set line
      then (case re_match dialogue_pattern line of Some m \<Rightarrow> True | None \<Rightarrow> False)
      else False)"

fun count_lines :: "str list \<Rightarrow> int \<Rightarrow> int" where
  "count_lines [] count = count"
| "count_lines (line # lines) count =
     (if is_dialogue line then count_lines lines (count + 1) else count_lines lines count)"

definition count_dialogues :: "str \<Rightarrow> int" where
  "count_dialogues content = count_lines (split_nl content) 0"

section \<open>The translator: rendering\<close>

text \<open>
  The pattern \<^verbatim>\<open>^([^:]+):\s*(.*)$\<close>; group 1 is the text of the second atom, group 2
  that of the fifth.
\<close>

definition speaker_pattern :: "atom list" where
  "speaker_pattern = [Bol, Plus (NotCh 58), Lit 58, Star Space, Star Dot, Eol]"

definition group :: "matched \<Rightarrow> nat \<Rightarrow> str" where
  "group m i = (if i = 1 then fst m ! 1 else fst m ! 4)"

text \<open>The body of the loop of \<^verbatim>\<open>generate_markdown\<close>: the line appended for one input line.\<close>

definition markdown_line :: "str \<Rightarrow> str" where
  "markdown_line line0 =
     (let line = strip line0 in
      if line = [] then []
      else if 58 \<in> set line then
        (case re_match speaker_pattern line of
           Some m \<Rightarrow>
             (let speaker = strip (group m 1); text = strip (group m 2)
              in ascii ''**'' @ speaker @ ascii '':** '' @ text)
         | None \<Rightarrow> line)
      else line)"

fun md_loop :: "str list \<Rightarrow> str list \<Rightarrow> str list" where
  "md_loop [] md_lines = md_lines"
| "md_loop (line # lines) md_lines = md_loop lines (md_lines @ [markdown_line line])"

definition generate_markdown :: "str \<Rightarrow> str" where
  "generate_markdown content = join_nl (md_loop (split_nl content) [])"

definition generate_txt :: "str \<Rightarrow> str" where
  "generate_txt content = content"

text \<open>
  The rule of the markdown renderer in the words of the specification, on one line: the
  line is trimmed; a blank line gives an empty line; a line with a colon that is not its
  first character gives the trimmed speaker in strong emphasis, a colon, a space and the
  trimmed content; any other line gives the trimmed line.
\<close>

definition spec_markdown_line :: "str \<Rightarrow> str" where
  "spec_markdown_line l =
     (let t = strip l; speaker = takeWhile (\<lambda>c. c \<noteq> 58) t; r = dropWhile (\<lambda>c. c \<noteq> 58) t in
      if t = [] then []
      else if speaker \<noteq> [] \<and> r \<noteq> []
      then ascii ''**'' @ strip speaker @ ascii '':** '' @ strip (tl r)
      else t)"

section \<open>Exceptions and JSON values\<close>

text \<open>
  The exception classes the program can meet, each with \<^verbatim>\<open>str(e)\<close> where the program
  prints it. \<open>RequestException\<close> stands for \<^verbatim>\<open>requests.exceptions.RequestException\<close> and
  all its subclasses (connection errors, timeouts, \<^verbatim>\<open>HTTPError\<close> from
  \<^verbatim>\<open>raise_for_status\<close>); \<open>OtherException\<close> for any class not named here.
\<close>

datatype exn =
    RequestException str
  | KeyError str
  | IndexError str
  | TypeError
  | AttributeError
  | UnicodeEncodeError
  | UnicodeDecodeError
  | OtherException str

text \<open>
  What \<^verbatim>\<open>response.json()\<close> can return. A number is carried as its literal; an object
  keeps its members in document order, and a later duplicate key wins as in \<^verbatim>\<open>json.loads\<close>.
\<close>

datatype json =
    JNull
  | JBool bool
  | JNumber str
  | JString str
  | JArray "json list"
  | JObject "(str \<times> json) list"

text \<open>
  \<^verbatim>\<open>v[key]\<close> with a string key: a dict looks the key up and raises \<^verbatim>\<open>KeyError\<close>, whose
  text is the \<^verbatim>\<open>repr\<close> of the key (for the plain keys of this program, the key in single
  quotes); every other JSON value raises \<^verbatim>\<open>TypeError\<close>.
\<close>

fun getitem_key :: "json \<Rightarrow> str \<Rightarrow> exn + json" where
  "getitem_key (JObject kvs) k =
     (case map_of (rev kvs) k of
        Some v \<Rightarrow> Inr v
      | None \<Rightarrow> Inl (KeyError (39 # k @ [39])))"
| "getitem_key v k = Inl TypeError"

text \<open>
  \<^verbatim>\<open>v[0]\<close>: the first element of a list or the first character of a string
  (\<^verbatim>\<open>IndexError\<close> when empty); on a dict the key \<^verbatim>\<open>0\<close> is never present, since JSON keys
  are strings (\<^verbatim>\<open>KeyError\<close>); every other value raises \<^verbatim>\<open>TypeError\<close>.
\<close>

fun getitem_0 :: "json \<Rightarrow> exn + json" where
  "getitem_0 (JArray []) = Inl (IndexError (ascii ''list index out of range''))"
| "getitem_0 (JArray (v # vs)) = Inr v"
| "getitem_0 (JString []) = Inl (IndexError (ascii ''string index out of range''))"
| "getitem_0 (JString (c # cs)) = Inr (JString [c])"
| "getitem_0 (JObject kvs) = Inl (KeyError (ascii ''0''))"
| "getitem_0 v = Inl TypeError"

text \<open>\<^verbatim>\<open>v.strip()\<close>: only a string has the method.\<close>

fun strip_method :: "json \<Rightarrow> exn + str" where
  "strip_method (JString s) = Inr (strip s)"
| "strip_method v = Inl AttributeError"

text \<open>Sequencing of steps that may raise.\<close>

definition and_then :: "exn + 'a \<Rightarrow> ('a \<Rightarrow> exn + 'b) \<Rightarrow> exn + 'b" where
  "and_then r f = (case r of Inl e \<Rightarrow> Inl e | Inr v \<Rightarrow> f v)"

section \<open>The completion provider\<close>

definition MODEL_NAME :: str where
  "MODEL_NAME = ascii ''google/gemini-2.5-flash''"

definition API_URL :: str where
  "API_URL = ascii ''https://openrouter.ai/api/v1/chat/completions''"

definition MAX_FILES :: nat where
  "MAX_FILES = 5"

definition MAX_TOKENS :: int where
  "MAX_TOKENS = 200000"

record message =
  msg_role :: str
  msg_content :: str

record payload =
  p_model :: str
  p_messages :: "message list"
  p_temperature :: rat
  p_max_tokens :: int

record request =
  req_url :: str
  req_headers :: "(str \<times> str) list"
  req_json :: payload
  req_timeout :: nat

text \<open>
  The world outside the program: \<open>respond w n r\<close> is what the \<open>n\<close>-th request of the run
  gives when it is \<open>r\<close>, namely the exception raised by \<^verbatim>\<open>requests.post\<close>, by
  \<^verbatim>\<open>raise_for_status\<close> or by \<^verbatim>\<open>response.json()\<close>, or the decoded body; \<open>sent w\<close> are
  the requests made so far.
\<close>

record world =
  respond :: "nat \<Rightarrow> request \<Rightarrow> exn + json"
  sent :: "request list"

definition post_json :: "request \<Rightarrow> world \<Rightarrow> (exn + json) \<times> world" where
  "post_json r w = (respond w (length (sent w)) r, w\<lparr>sent := sent w @ [r]\<rparr>)"

section \<open>The translator: one request per file\<close>

record translator =
  api_key :: str
  model :: str
  headers :: "(str \<times> str) list"

definition init :: "str \<Rightarrow> str \<Rightarrow> translator" where
  "init key m =
     \<lparr>api_key = key, model = m,
      headers = [(ascii ''Authorization'', ascii ''Bearer '' @ key),
                 (ascii ''Content-Type'', ascii ''application/json'')]\<rparr>"

text \<open>The prompt template, before and behind the cleaned content.\<close>

definition prompt_head :: str where
  "prompt_head =
    [35831, 23558, 20197, 19979, 33521, 25991, 23545, 35805, 25991, 20214, 32763,
     35793, 25104, 22320, 36947, 30340, 20013, 25991, 65292, 35201, 31526, 21512,
     20013, 25991, 34920, 36798, 20064, 24815, 65292, 20934, 30830, 20256, 36798,
     21407, 24847, 12290, 10, 10, 35201, 27714, 65306, 10, 49, 46, 32, 20445, 25345,
     21407, 25991, 20214, 30340, 26684, 24335, 21644, 32467, 26500, 10, 50, 46, 32,
     27599, 34892, 23545, 35805, 26684, 24335, 20026, 34, 35828, 35805, 32773, 58, 32,
     20869, 23481, 34, 10, 51, 46, 32, 20808, 26174, 31034, 33521, 25991, 21407, 25991,
     65292, 28982, 21518, 26174, 31034, 20013, 25991, 32763, 35793, 65292, 27599,
     32452, 23545, 35805, 20043, 38388, 31354, 19968, 34892, 10, 52, 46, 32, 33258,
     21160, 28165, 29702, 24050, 32463, 23384, 22312, 30340, 91, 116, 97, 103, 93,
     26631, 31614, 10, 53, 46, 32, 32763, 35793, 35201, 20934, 30830, 12289, 22320,
     36947, 12289, 31526, 21512, 20013, 25991, 34920, 36798, 20064, 24815, 10, 54, 46,
     32, 36755, 20986, 26684, 24335, 31034, 20363, 65306, 10, 10, 83, 97, 108, 108,
     121, 58, 32, 72, 101, 108, 108, 111, 32, 116, 104, 101, 114, 101, 33, 10, 83, 97,
     108, 108, 121, 58, 32, 20320, 22909, 65281, 10, 10, 80, 101, 116, 101, 58, 32, 72,
     111, 119, 32, 97, 114, 101, 32, 121, 111, 117, 63, 10, 80, 101, 116, 101, 58, 32,
     20320, 22909, 21527, 65311, 10, 10, 21407, 25991, 20214, 20869, 23481, 65306, 10]"

definition prompt_tail :: str where
  "prompt_tail =
    [10, 10, 32763, 35793, 32467, 26524, 65306]"

text \<open>The two bracketed prefixes of the failure strings.\<close>

definition api_failed :: "str \<Rightarrow> str" where
  "api_failed d = [91, 65, 80, 73, 35831, 27714, 22833, 36133, 58, 32] @ d @ [93]"

definition parse_failed :: "str \<Rightarrow> str" where
  "parse_failed d = [91, 35299, 26512, 21709, 24212, 22833, 36133, 58, 32] @ d @ [93]"

definition build_request :: "translator \<Rightarrow> str \<Rightarrow> request" where
  "build_request self content =
     (let cleaned_content = clean_tags_from_content content;
          prompt = prompt_head @ cleaned_content @ prompt_tail;
          payload = \<lparr>p_model = model self,
                     p_messages = [\<lparr>msg_role = ascii ''user'', msg_content = prompt\<rparr>],
                     p_temperature = 3 / 10,
                     p_max_tokens = MAX_TOKENS\<rparr>
      in \<lparr>req_url = API_URL, req_headers = headers self, req_json = payload,
           req_timeout = 120\<rparr>)"

text \<open>\<^verbatim>\<open>result['choices'][0]['message']['content']\<close>.\<close>

definition lookup_content :: "json \<Rightarrow> exn + json" where
  "lookup_content result =
     and_then (and_then (and_then (getitem_key result (ascii ''choices'')) getitem_0)
       (\<lambda>choice. getitem_key choice (ascii ''message'')))
       (\<lambda>msg. getitem_key msg (ascii ''content''))"

text \<open>The two \<^verbatim>\<open>except\<close> clauses; any other exception goes on to the caller.\<close>

fun except_clauses :: "exn + str \<Rightarrow> exn + str" where
  "except_clauses (Inr translated_content) = Inr translated_content"
| "except_clauses (Inl (RequestException d)) = Inr (api_failed d)"
| "except_clauses (Inl (KeyError d)) = Inr (parse_failed d)"
| "except_clauses (Inl (IndexError d)) = Inr (parse_failed d)"
| "except_clauses (Inl e) = Inl e"

definition translate_entire_file ::
    "translator \<Rightarrow> str \<Rightarrow> str \<Rightarrow> world \<Rightarrow> (exn + str) \<times> world" where
  "translate_entire_file self content filename w =
     (let (response, w') = post_json (build_request self content) w
      in (except_clauses
            (and_then response (\<lambda>result. and_then (lookup_content result) strip_method)),
          w'))"

text \<open>
  \<^verbatim>\<open>process_content\<close>, called without a progress callback: the count is taken from the
  original content before the request is made.
\<close>

definition process_content ::
    "translator \<Rightarrow> str \<Rightarrow> str \<Rightarrow> world \<Rightarrow> (exn + str \<times> str \<times> int) \<times> world" where
  "process_content self content filename w =
     (let dialogue_count = count_dialogues content;
          (translated, w') = translate_entire_file self content filename w
      in (and_then translated (\<lambda>translated_content.
            Inr (generate_markdown translated_content, generate_txt translated_content,
                 dialogue_count)),
          w'))"

text \<open>
  Sample worlds and bodies for the scenarios: a world that gives every request the same
  outcome, a well-shaped body, and a body whose content is \<^verbatim>\<open>null\<close>.
\<close>

definition replying :: "exn + json \<Rightarrow> world" where
  "replying r = \<lparr>respond = (\<lambda>n q. r), sent = []\<rparr>"

definition body_with_content :: "json \<Rightarrow> json" where
  "body_with_content v =
     JObject [(ascii ''id'', JString (ascii ''gen-1'')),
              (ascii ''choices'',
               JArray [JObject [(ascii ''message'',
                 JObject [(ascii ''role'', JString (ascii ''assistant'')),
                          (ascii ''content'', v)])]])]"

section \<open>Bytes and UTF-8\<close>

type_synonym byte = "8 word"

text \<open>
  \<^verbatim>\<open>s.encode('utf-8')\<close>: a surrogate code point cannot be encoded and raises
  \<^verbatim>\<open>UnicodeEncodeError\<close>; every other code point gives one to four bytes.
\<close>

definition is_surrogate :: "nat \<Rightarrow> bool" where
  "is_surrogate c = (55296 \<le> c \<and> c \<le> 57343)"

definition utf8_char :: "nat \<Rightarrow> byte list" where
  "utf8_char c =
     (if c < 128 then [of_nat c]
      else if c < 2048 then [of_nat (192 + c div 64), of_nat (128 + c mod 64)]
      else if c < 65536 then
        [of_nat (224 + c div 4096), of_nat (128 + c div 64 mod 64), of_nat (128 + c mod 64)]
      else
        [of_nat (240 + c div 262144), of_nat (128 + c div 4096 mod 64),
         of_nat (128 + c div 64 mod 64), of_nat (128 + c mod 64)])"

definition utf8_bytes :: "str \<Rightarrow> byte list" where
  "utf8_bytes s = concat (map utf8_char s)"

definition utf8_encode :: "str \<Rightarrow> exn + byte list" where
  "utf8_encode s = (if list_ex is_surrogate s then Inl UnicodeEncodeError else Inr (utf8_bytes s))"

text \<open>\<^verbatim>\<open>b.decode('utf-8')\<close>: the strict decoder, which accepts well-formed UTF-8 only.\<close>

definition cont :: "nat \<Rightarrow> bool" where
  "cont b = (128 \<le> b \<and> b \<le> 191)"

fun decode_from :: "nat list \<Rightarrow> exn + str" where
  "decode_from [] = Inr []"
| "decode_from (b0 # bs) =
     (if b0 < 128 then and_then (decode_from bs) (\<lambda>s. Inr (b0 # s))
      else if 194 \<le> b0 \<and> b0 \<le> 223 then
        (case bs of
           b1 # r \<Rightarrow>
             if cont b1
             then and_then (decode_from r) (\<lambda>s. Inr (((b0 - 192) * 64 + (b1 - 128)) # s))
             else Inl UnicodeDecodeError
         | _ \<Rightarrow> Inl UnicodeDecodeError)
      else if 224 \<le> b0 \<and> b0 \<le> 239 then
        (case bs of
           b1 # b2 # r \<Rightarrow>
             if (if b0 = 224 then 160 \<le> b1 \<and> b1 \<le> 191
                 else if b0 = 237 then 128 \<le> b1 \<and> b1 \<le> 159 else cont b1) \<and> cont b2
             then and_then (decode_from r)
                    (\<lambda>s. Inr (((b0 - 224) * 4096 + (b1 - 128) * 64 + (b2 - 128)) # s))
             else Inl UnicodeDecodeError
         | _ \<Rightarrow> Inl UnicodeDecodeError)
      else if 240 \<le> b0 \<and> b0 \<le> 244 then
        (case bs of
           b1 # b2 # b3 # r \<Rightarrow>
             if (if b0 = 240 then 144 \<le> b1 \<and> b1 \<le> 191
                 else if b0 = 244 then 128 \<le> b1 \<and> b1 \<le> 143 else cont b1)
                \<and> cont b2 \<and> cont b3
             then and_then (decode_from r)
                    (\<lambda>s. Inr (((b0 - 240) * 262144 + (b1 - 128) * 4096 + (b2 - 128) * 64
                                + (b3 - 128)) # s))
             else Inl UnicodeDecodeError
         | _ \<Rightarrow> Inl UnicodeDecodeError)
      else Inl UnicodeDecodeError)"

definition utf8_decode :: "byte list \<Rightarrow> exn + str" where
  "utf8_decode bs = decode_from (map unat bs)"

section \<open>The archive\<close>

text \<open>
  The outputs kept for one file, and the result mapping: a \<^verbatim>\<open>dict\<close> in insertion order,
  so an association list whose keys are distinct; \<^verbatim>\<open>results[k] = v\<close> is \<open>AList.update\<close>.
\<close>

record rendered =
  markdown :: str
  txt_out :: str
  dialogue_count :: int

type_synonym result_map = "(str \<times> rendered) list"

text \<open>
  A \<^verbatim>\<open>ZipFile\<close> opened for writing is the sequence of its members, each a name and the data
  handed to \<^verbatim>\<open>writestr\<close>. \<^verbatim>\<open>writestr\<close> cuts the archive name at its first null character;
  an empty name raises \<^verbatim>\<open>IndexError\<close>, and a name with a surrogate code point cannot be
  encoded for the member's header. \<^verbatim>\<open>ZipFile.read(name)\<close> gives the data of the last member
  of that name.
\<close>

type_synonym zip_file = "(str \<times> byte list) list"

definition writestr :: "zip_file \<Rightarrow> str \<Rightarrow> byte list \<Rightarrow> exn + zip_file" where
  "writestr z arcname data =
     (let filename = takeWhile (\<lambda>c. c \<noteq> 0) arcname
      in if filename = [] then Inl (IndexError (ascii ''string index out of range''))
         else if list_ex is_surrogate filename then Inl UnicodeEncodeError
         else Inr (z @ [(filename, data)]))"


text \<open>
  \<^verbatim>\<open>Path(filename).stem\<close> is a parameter \<open>stem\<close> of the archive builder, since it belongs
  to the platform's \<^verbatim>\<open>pathlib\<close>. \<open>posix_stem\<close> is the POSIX one: the last component of the
  path, cut before its last dot unless that dot is its first or last character.
\<close>

fun split_slash :: "str \<Rightarrow> str list" where
  "split_slash [] = [[]]"
| "split_slash (c # cs) =
     (if c = 47 then [] # split_slash cs
      else (case split_slash cs of [] \<Rightarrow> [[c]] | p # ps \<Rightarrow> (c # p) # ps))"

definition posix_name :: "str \<Rightarrow> str" where
  "posix_name filename =
     (let parts = filter (\<lambda>p. p \<noteq> [] \<and> p \<noteq> [46]) (split_slash filename)
      in if parts = [] then [] else last parts)"

definition posix_stem :: "str \<Rightarrow> str" where
  "posix_stem filename =
     (let name = posix_name filename;
          suffix = takeWhile (\<lambda>c. c \<noteq> 46) (rev name);
          i = length name - length suffix - 1
      in if 46 \<in> set name \<and> 0 < i \<and> suffix \<noteq> [] then take i name else name)"

text \<open>The loop of \<^verbatim>\<open>create_download_zip\<close> over \<^verbatim>\<open>results.items()\<close>.\<close>

fun write_results :: "(str \<Rightarrow> str) \<Rightarrow> result_map \<Rightarrow> zip_file \<Rightarrow> exn + zip_file" where
  "write_results stem [] zip_file = Inr zip_file"
| "write_results stem ((filename, data) # items) zip_file =
     (let base_name = stem filename;
          md_filename = base_name @ ascii ''_translated.md''
      in and_then (utf8_encode (markdown data)) (\<lambda>md_bytes.
         and_then (writestr zip_file md_filename md_bytes) (\<lambda>zip_file1.
           let txt_filename = base_name @ ascii ''_translated.txt''
           in and_then (utf8_encode (txt_out data)) (\<lambda>txt_bytes.
              and_then (writestr zip_file1 txt_filename txt_bytes) (\<lambda>zip_file2.
                write_results stem items zip_file2)))))"

definition create_download_zip :: "(str \<Rightarrow> str) \<Rightarrow> result_map \<Rightarrow> exn + zip_file" where
  "create_download_zip stem results = write_results stem results []"

text \<open>The members the specification lists for one entry, and for a mapping.\<close>

definition entry_members :: "(str \<Rightarrow> str) \<Rightarrow> str \<times> rendered \<Rightarrow> zip_file" where
  "entry_members stem e =
     [(stem (fst e) @ ascii ''_translated.md'', utf8_bytes (markdown (snd e))),
      (stem (fst e) @ ascii ''_translated.txt'', utf8_bytes (txt_out (snd e)))]"



section \<open>The page: one run of \<^verbatim>\<open>main\<close>\<close>

record uploaded_file =
  name :: str
  getvalue :: "byte list"

text \<open>
  What the per-file loop accumulates: the result mapping, the two counters, and the files
  reported as failed with the exception caught by \<^verbatim>\<open>except Exception\<close>.
\<close>

record batch =
  results :: result_map
  success_count :: int
  total_dialogue_count :: int
  failed :: "(str \<times> exn) list"

fun process_files ::
    "translator \<Rightarrow> uploaded_file list \<Rightarrow> batch \<Rightarrow> world \<Rightarrow> batch \<times> world" where
  "process_files translator [] b w = (b, w)"
| "process_files translator (uploaded_file # rest) b w =
     (case utf8_decode (getvalue uploaded_file) of
        Inl e \<Rightarrow>
          process_files translator rest
            (b\<lparr>failed := failed b @ [(name uploaded_file, e)]\<rparr>) w
      | Inr content \<Rightarrow>
          (case process_content translator content (name uploaded_file) w of
             (Inl e, w') \<Rightarrow>
               process_files translator rest
                 (b\<lparr>failed := failed b @ [(name uploaded_file, e)]\<rparr>) w'
           | (Inr (md_content, txt_content, n), w') \<Rightarrow>
               process_files translator rest
                 (b\<lparr>results := AList.update (name uploaded_file)
                       \<lparr>markdown = md_content, txt_out = txt_content, dialogue_count = n\<rparr>
                       (results b),
                    success_count := success_count b + 1,
                    total_dialogue_count := total_dialogue_count b + n\<rparr>) w'))"

text \<open>
  What a run shows: the request for a key, the upload prompt, the rejection of too many
  files (with the limit and the number uploaded), the file list waiting for the button, or
  the summary with the number uploaded, the batch and the archive offered for download.
\<close>

datatype page =
    NeedApiKey
  | UploadPrompt
  | TooManyFiles nat nat
  | FileList nat
  | Summary nat batch "zip_file option"

definition main ::
    "(str \<Rightarrow> str) \<Rightarrow> str \<Rightarrow> uploaded_file list \<Rightarrow> bool \<Rightarrow> world \<Rightarrow> (exn + page) \<times> world" where
  "main stem key uploaded_files button w =
     (if key = [] then (Inr NeedApiKey, w)
      else if uploaded_files \<noteq> [] then
        (if length uploaded_files > MAX_FILES
         then (Inr (TooManyFiles MAX_FILES (length uploaded_files)), w)
         else if button then
           (let translator = init key MODEL_NAME;
                (b, w') = process_files translator uploaded_files
                            \<lparr>results = [], success_count = 0, total_dialogue_count = 0,
                             failed = []\<rparr> w
            in if results b \<noteq> [] then
                 (case create_download_zip stem (results b) of
                    Inl e \<Rightarrow> (Inl e, w')
                  | Inr zip_bytes \<Rightarrow>
                      (Inr (Summary (length uploaded_files) b (Some zip_bytes)), w'))
               else (Inr (Summary (length uploaded_files) b None), w'))
         else (Inr (FileList (length uploaded_files)), w))
      else (Inr UploadPrompt, w))"

section \<open>Auxiliary functions for the proofs\<close>

text \<open>
  The text behind the first \<^verbatim>\<open>]\<close> of a line, if the line has one: what is left of the
  subject once \<^verbatim>\<open>.*?\]\<close> has matched.
\<close>

fun close_tag :: "str \<Rightarrow> str option" where
  "close_tag [] = None"
| "close_tag (x # xs) = (if x = 93 then Some xs else if x = 10 then None else close_tag xs)"

section \<open>Properties\<close>

subsection \<open>Tag stripping\<close>

lemma rx_lazy_close:
  "map_option snd (rx [LazyStar Dot, Lit 93] b s) = close_tag s"
proof (induction s arbitrary: b)
  case Nil
  show ?case by (simp add: skip_def)
next
  case (Cons x xs)
  have ih: "map_option snd (rx [LazyStar Dot, Lit 93] False xs) = close_tag xs"
    by (rule Cons.IH)
  show ?case
  proof (cases "x = 93")
    case True
    then show ?thesis by (simp add: skip_def)
  next
    case False
    then show ?thesis using ih
      by (cases "rx [LazyStar Dot, Lit 93] False xs")
        (auto simp: skip_def push_def)
  qed
qed

lemma rx_tag:
  "map_option snd (rx tag_pattern b s) =
     (case s of [] \<Rightarrow> None | x # xs \<Rightarrow> if x = 91 then close_tag xs else None)"
proof (cases s)
  case Nil
  then show ?thesis by (simp add: tag_pattern_def)
next
  case (Cons x xs)
  show ?thesis
  proof (cases "x = 91")
    case True
    have "map_option snd (rx tag_pattern b s)
        = map_option snd (rx [LazyStar Dot, Lit 93] False xs)"
      using Cons True
      by (cases "rx [LazyStar Dot, Lit 93] False xs") (auto simp: tag_pattern_def)
    then show ?thesis using Cons True by (simp add: rx_lazy_close)
  next
    case False
    then show ?thesis using Cons by (simp add: tag_pattern_def)
  qed
qed

lemma close_tag_shorter: "close_tag xs = Some r \<Longrightarrow> length r < length xs"
  by (induction xs) (auto split: if_splits)

lemma sub_tag_Nil: "re_sub_from tag_pattern [] b [] = []"
  by (subst re_sub_from.simps) (simp add: tag_pattern_def)

lemma sub_tag_Cons:
  "re_sub_from tag_pattern [] b (x # xs) =
     (if x = 91 then (case close_tag xs of Some r \<Rightarrow> re_sub_from tag_pattern [] False r
                       | None \<Rightarrow> x # re_sub_from tag_pattern [] False xs)
      else x # re_sub_from tag_pattern [] False xs)"
proof -
  have m: "map_option snd (rx tag_pattern b (x # xs)) = (if x = 91 then close_tag xs else None)"
    by (simp add: rx_tag)
  show ?thesis
  proof (cases "rx tag_pattern b (x # xs)")
    case None
    then have "(if x = 91 then close_tag xs else None) = None" using m by simp
    then show ?thesis using None
      by (subst re_sub_from.simps) (auto split: if_splits)
  next
    case (Some m')
    obtain gs r where m': "m' = (gs, r)" by (cases m')
    have c: "x = 91 \<and> close_tag xs = Some r" using m Some m' by (auto split: if_splits)
    then have "length r < length (x # xs)" using close_tag_shorter[of xs r] by simp
    then show ?thesis using Some m' c
      by (subst re_sub_from.simps) simp
  qed
qed

lemma sub_tag_flag: "re_sub_from tag_pattern [] b s = re_sub_from tag_pattern [] False s"
  by (cases s) (simp_all add: sub_tag_Nil sub_tag_Cons)

lemma close_tag_on_line:
  "(close_tag xs \<noteq> None) = (93 \<in> set (takeWhile (\<lambda>c. c \<noteq> 10) xs))"
  by (induction xs) auto

lemma on_line_Cons:
  "spec_bracketed_on_line (x # xs) =
     ((x = 91 \<and> close_tag xs \<noteq> None) \<or> spec_bracketed_on_line xs)"
  unfolding close_tag_on_line by simp

declare spec_bracketed_on_line.simps(2) [simp del]

lemma on_line_bracketed: "spec_bracketed_on_line s \<Longrightarrow> spec_bracketed s"
proof (induction s)
  case Nil
  then show ?case by simp
next
  case (Cons x xs)
  then show ?case
    by (auto simp: spec_bracketed_on_line.simps(2) dest: set_takeWhileD)
qed

lemma close_tag_sub:
  "close_tag xs = None \<Longrightarrow> close_tag (re_sub_from tag_pattern [] False xs) = None"
proof (induction xs)
  case Nil
  show ?case by (simp add: sub_tag_Nil)
next
  case (Cons y ys)
  then show ?case
    by (auto simp: sub_tag_Cons split: if_splits)
qed

lemma no_tag_after_sub:
  "\<not> spec_bracketed_on_line (re_sub_from tag_pattern [] False s)"
proof (induction s rule: length_induct)
  case (1 s)
  show ?case
  proof (cases s)
    case Nil
    then show ?thesis by (simp add: sub_tag_Nil)
  next
    case (Cons x xs)
    have ih: "\<And>t. length t < length s \<Longrightarrow>
        \<not> spec_bracketed_on_line (re_sub_from tag_pattern [] False t)"
      using 1 by blast
    show ?thesis
    proof (cases "x = 91")
      case False
      then show ?thesis using Cons ih[of xs] by (simp add: sub_tag_Cons on_line_Cons)
    next
      case True
      show ?thesis
      proof (cases "close_tag xs")
        case None
        then show ?thesis using Cons True ih[of xs] close_tag_sub[OF None]
          by (simp add: sub_tag_Cons on_line_Cons)
      next
        case (Some r)
        then have "length r < length s" using close_tag_shorter[OF Some] Cons by simp
        then show ?thesis using Cons True Some ih[of r] by (simp add: sub_tag_Cons)
      qed
    qed
  qed
qed

lemma sub_tag_id:
  "\<not> spec_bracketed_on_line s \<Longrightarrow> re_sub_from tag_pattern [] False s = s"
proof (induction s)
  case Nil
  show ?case by (simp add: sub_tag_Nil)
next
  case (Cons x xs)
  have a: "\<not> (x = 91 \<and> close_tag xs \<noteq> None)" and b: "\<not> spec_bracketed_on_line xs"
    using Cons.prems by (simp_all add: on_line_Cons)
  have "re_sub_from tag_pattern [] False xs = xs" using Cons.IH b by simp
  then show ?case using a by (auto simp: sub_tag_Cons)
qed


text \<open>
  C2, as stated: stripping \<^verbatim>\<open>"Sally: [warm] Hello!\nPete: [joyful] Hi!"\<close> yields exactly
  \<^verbatim>\<open>"Sally: Hello!\nPete: Hi!"\<close>. It does not: only the brackets and their contents go,
  so the space before and the space after each tag both stay.
\<close>

theorem strip_scenario_single_space_counterexample:
  "clean_tags_from_content (ascii ''Sally: [warm] Hello!\<newline>Pete: [joyful] Hi!'')
     \<noteq> ascii ''Sally: Hello!\<newline>Pete: Hi!''"
  by code_simp

text \<open>
  C2, amended: stripping \<^verbatim>\<open>"Sally: [warm] Hello!\nPete: [joyful] Hi!"\<close> yields exactly
  \<^verbatim>\<open>"Sally:  Hello!\nPete:  Hi!"\<close>, with the two spaces that surrounded each tag.
\<close>

theorem strip_scenario:
  "clean_tags_from_content (ascii ''Sally: [warm] Hello!\<newline>Pete: [joyful] Hi!'')
     = ascii ''Sally:  Hello!\<newline>Pete:  Hi!''"
  by code_simp

text \<open>
  C5, as stated: the stripped text holds no bracketed annotation. It may: the dot of the
  pattern does not match a newline, so a bracket pair that spans a line break is not a tag
  for the code; \<^verbatim>\<open>"[a\nb]"\<close> is returned as it is.
\<close>

theorem strip_keeps_brackets_across_lines_counterexample:
  "clean_tags_from_content (ascii ''[a\<newline>b]'') = ascii ''[a\<newline>b]''
   \<and> spec_bracketed (clean_tags_from_content (ascii ''[a\<newline>b]''))"
  by code_simp

text \<open>
  C5, amended: stripping is idempotent; it is the identity on a text that holds no
  bracketed annotation, and on every text that holds none within one line; and the
  stripped text holds no bracketed annotation within one line.
\<close>

theorem strip_idempotent_identity_line_clean:
  "clean_tags_from_content (clean_tags_from_content x) = clean_tags_from_content x
   \<and> (\<not> spec_bracketed x \<longrightarrow> clean_tags_from_content x = x)
   \<and> (\<not> spec_bracketed_on_line x \<longrightarrow> clean_tags_from_content x = x)
   \<and> \<not> spec_bracketed_on_line (clean_tags_from_content x)"
proof -
  have c: "clean_tags_from_content y = re_sub_from tag_pattern [] False y" for y
    by (simp add: clean_tags_from_content_def re_sub_def sub_tag_flag[of True])
  have i: "\<not> spec_bracketed y \<Longrightarrow> re_sub_from tag_pattern [] False y = y" for y
    using on_line_bracketed[of y] sub_tag_id[of y] by blast
  show ?thesis
    by (simp add: c no_tag_after_sub sub_tag_id i)
qed

theorem strip_idempotent_identity_line_clean_witness:
  "\<not> spec_bracketed (ascii ''Sally: Hi ]x['')
   \<and> clean_tags_from_content (ascii ''Sally: Hi ]x['') = ascii ''Sally: Hi ]x[''
   \<and> \<not> spec_bracketed_on_line (ascii ''[a\<newline>b]'')
   \<and> clean_tags_from_content (ascii ''[a\<newline>b]'') = ascii ''[a\<newline>b]''
   \<and> spec_bracketed_on_line (ascii ''a[b]c [d\<newline>e]'')
   \<and> clean_tags_from_content (ascii ''a[b]c [d\<newline>e]'') = ascii ''ac [d\<newline>e]''
   \<and> \<not> spec_bracketed_on_line (clean_tags_from_content (ascii ''a[b]c [d\<newline>e]''))"
proof -
  have h1: "\<not> spec_bracketed (ascii ''Sally: Hi ]x['')" by code_simp
  have h2: "\<not> spec_bracketed_on_line (ascii ''[a\<newline>b]'')" by code_simp
  have h3: "spec_bracketed_on_line (ascii ''a[b]c [d\<newline>e]'')" by code_simp
  have e: "clean_tags_from_content (ascii ''a[b]c [d\<newline>e]'') = ascii ''ac [d\<newline>e]''"
    by code_simp
  note a = strip_idempotent_identity_line_clean[of "ascii ''Sally: Hi ]x[''"]
  note b = strip_idempotent_identity_line_clean[of "ascii ''[a\<newline>b]''"]
  note c = strip_idempotent_identity_line_clean[of "ascii ''a[b]c [d\<newline>e]''"]
  from a h1 have 1: "clean_tags_from_content (ascii ''Sally: Hi ]x['') = ascii ''Sally: Hi ]x[''"
    by blast
  from b h2 have 2: "clean_tags_from_content (ascii ''[a\<newline>b]'') = ascii ''[a\<newline>b]''"
    by blast
  from c have 3: "\<not> spec_bracketed_on_line (clean_tags_from_content (ascii ''a[b]c [d\<newline>e]''))"
    by blast
  show ?thesis using h1 1 h2 2 h3 e 3 by (intro conjI)
qed

subsection \<open>Evaluation\<close>

lemmas eval_defs = ascii_def strip_def isspace_def re_match_def skip_def push_def group_def
  speaker_pattern_def dialogue_pattern_def is_dialogue_def count_dialogues_def
  markdown_line_def generate_markdown_def

subsection \<open>Counting dialogue lines\<close>

lemma strip_Nil: "strip [] = []"
  by (simp add: strip_def)

lemma set_strip: "set (strip s) \<subseteq> set s"
proof -
  have "set (strip s) \<subseteq> set (dropWhile isspace s)"
    unfolding strip_def using set_dropWhileD[of _ isspace "rev (dropWhile isspace s)"] by auto
  also have "\<dots> \<subseteq> set s" using set_dropWhileD[of _ isspace s] by auto
  finally show ?thesis .
qed

lemma strip_dropWhile: "strip (dropWhile isspace s) = strip s"
  by (simp add: strip_def)

lemma count_lines_bounds:
  "count \<le> count_lines ls count
   \<and> count_lines ls count \<le> count + int (length (filter (\<lambda>l. strip l \<noteq> []) ls))"
proof (induction ls arbitrary: count)
  case Nil
  show ?case by simp
next
  case (Cons l ls)
  have d: "is_dialogue l \<Longrightarrow> strip l \<noteq> []"
    by (auto simp: is_dialogue_def Let_def split: if_splits)
  show ?case using Cons.IH[of count] Cons.IH[of "count + 1"] d
    by (cases "is_dialogue l") (auto split: if_splits)
qed

lemma count_lines_filter:
  "count_lines ls count = count + int (length (filter is_dialogue ls))"
  by (induction ls arbitrary: count) auto

text \<open>
  C7: the count is never negative and never more than the number of non-blank lines; the
  scenario \<^verbatim>\<open>"Sally: Hi!\n\nNot a dialogue line"\<close> counts 1.
\<close>

theorem count_dialogues_bounds:
  "0 \<le> count_dialogues content
   \<and> count_dialogues content \<le> int (length (filter (\<lambda>l. strip l \<noteq> []) (split_nl content)))
   \<and> count_dialogues (ascii ''Sally: Hi!\<newline>\<newline>Not a dialogue line'') = 1"
proof -
  have "count_dialogues (ascii ''Sally: Hi!\<newline>\<newline>Not a dialogue line'') = 1"
    by (simp add: eval_defs)
  then show ?thesis using count_lines_bounds[of 0 "split_nl content"]
    by (simp add: count_dialogues_def)
qed

subsection \<open>The markdown renderer\<close>

lemma rx_tail: "10 \<notin> set s \<Longrightarrow> rx [Star Dot, Eol] b s = Some ([s, []], [])"
  by (induction s arbitrary: b) (simp_all add: skip_def push_def)

lemma rx_space_tail:
  "10 \<notin> set s \<Longrightarrow>
   rx [Star Space, Star Dot, Eol] b s = Some ([takeWhile isspace s, dropWhile isspace s, []], [])"
proof (induction s arbitrary: b)
  case Nil
  show ?case by (simp add: skip_def)
next
  case (Cons x xs)
  have t: "rx [Star Dot, Eol] b (x # xs) = Some ([x # xs, []], [])"
    using Cons.prems by (rule rx_tail)
  have ih: "rx [Star Space, Star Dot, Eol] False xs
      = Some ([takeWhile isspace xs, dropWhile isspace xs, []], [])"
    using Cons by simp
  show ?case
  proof (cases "isspace x")
    case True
    then show ?thesis using ih by (simp add: push_def)
  next
    case False
    have "rx [Star Space, Star Dot, Eol] b (x # xs) = skip (rx [Star Dot, Eol] b (x # xs))"
      using False by simp
    then show ?thesis using False t by (simp add: skip_def)
  qed
qed

lemma rx_star_speaker:
  "10 \<notin> set s \<Longrightarrow>
   rx [Star (NotCh 58), Lit 58, Star Space, Star Dot, Eol] b s =
     (case dropWhile (\<lambda>c. c \<noteq> 58) s of
        [] \<Rightarrow> None
      | c # t \<Rightarrow> Some ([takeWhile (\<lambda>c. c \<noteq> 58) s, [58], takeWhile isspace t,
                         dropWhile isspace t, []], []))"
proof (induction s arbitrary: b)
  case Nil
  show ?case by (simp add: skip_def)
next
  case (Cons x xs)
  have nl: "10 \<notin> set xs" using Cons.prems by simp
  show ?case
  proof (cases "x = 58")
    case True
    have "rx [Star (NotCh 58), Lit 58, Star Space, Star Dot, Eol] b (x # xs)
        = skip (rx [Lit 58, Star Space, Star Dot, Eol] b (x # xs))"
      using True by simp
    also have "\<dots> = skip (map_option (\<lambda>(gs, r). ([x] # gs, r))
        (rx [Star Space, Star Dot, Eol] False xs))"
      using True by simp
    finally show ?thesis using True rx_space_tail[OF nl, of False] by (simp add: skip_def)
  next
    case False
    have n: "rx [Lit 58, Star Space, Star Dot, Eol] b (x # xs) = None"
      using False by simp
    have "rx [Star (NotCh 58), Lit 58, Star Space, Star Dot, Eol] b (x # xs)
        = (case push x (rx [Star (NotCh 58), Lit 58, Star Space, Star Dot, Eol] False xs) of
             Some m \<Rightarrow> Some m
           | None \<Rightarrow> skip (rx [Lit 58, Star Space, Star Dot, Eol] b (x # xs)))"
      using False by simp
    then show ?thesis using False n Cons.IH[OF nl, of False]
      by (cases "dropWhile (\<lambda>c. c \<noteq> 58) xs")
        (simp_all add: push_def skip_def del: dropWhile_eq_Nil_conv)
  qed
qed

lemma re_match_speaker:
  "10 \<notin> set s \<Longrightarrow>
   re_match speaker_pattern s =
     (case s of
        [] \<Rightarrow> None
      | x # xs \<Rightarrow>
          if x = 58 then None
          else (case dropWhile (\<lambda>c. c \<noteq> 58) xs of
                  [] \<Rightarrow> None
                | c # t \<Rightarrow> Some ([[], x # takeWhile (\<lambda>c. c \<noteq> 58) xs, [58],
                                   takeWhile isspace t, dropWhile isspace t, []], [])))"
proof (cases s)
  case Nil
  then show ?thesis by (simp add: re_match_def speaker_pattern_def skip_def)
next
  case (Cons x xs)
  assume "10 \<notin> set s"
  then have nl: "10 \<notin> set xs" using Cons by simp
  show ?thesis
  proof (cases "x = 58")
    case True
    then show ?thesis using Cons by (simp add: re_match_def speaker_pattern_def skip_def)
  next
    case False
    have "re_match speaker_pattern s
        = skip (push x (rx [Star (NotCh 58), Lit 58, Star Space, Star Dot, Eol] False xs))"
      using Cons False by (simp add: re_match_def speaker_pattern_def)
    then show ?thesis using Cons False rx_star_speaker[OF nl, of False]
      by (cases "dropWhile (\<lambda>c. c \<noteq> 58) xs")
        (simp_all add: push_def skip_def del: dropWhile_eq_Nil_conv)
  qed
qed

lemma markdown_line_spec:
  assumes "10 \<notin> set l"
  shows "markdown_line l = spec_markdown_line l"
proof -
  define t where "t = strip l"
  have nl: "10 \<notin> set t" using assms set_strip[of l] by (auto simp: t_def)
  show ?thesis
  proof (cases t)
    case Nil
    then show ?thesis by (simp add: markdown_line_def spec_markdown_line_def t_def[symmetric])
  next
    case (Cons x xs)
    show ?thesis
    proof (cases "58 \<in> set t")
      case False
      then have "dropWhile (\<lambda>c. c \<noteq> 58) t = []" by auto
      then show ?thesis using False Cons
        by (simp add: markdown_line_def spec_markdown_line_def t_def[symmetric] Let_def)
    next
      case True
      show ?thesis
      proof (cases "x = 58")
        case x: True
        then have "re_match speaker_pattern t = None" using re_match_speaker[OF nl] Cons by simp
        then show ?thesis using True Cons x
          by (simp add: markdown_line_def spec_markdown_line_def t_def[symmetric] Let_def)
      next
        case x: False
        then have "58 \<in> set xs" using True Cons by simp
        then obtain c r where d: "dropWhile (\<lambda>c. c \<noteq> 58) xs = c # r"
          by (cases "dropWhile (\<lambda>c. c \<noteq> 58) xs") auto
        have m: "re_match speaker_pattern t = Some ([[], x # takeWhile (\<lambda>c. c \<noteq> 58) xs, [58],
            takeWhile isspace r, dropWhile isspace r, []], [])"
          using re_match_speaker[OF nl] Cons x d by simp
        show ?thesis using True Cons x d m
          by (simp add: markdown_line_def spec_markdown_line_def t_def[symmetric] Let_def
              group_def strip_dropWhile)
      qed
    qed
  qed
qed

lemma split_nl_not_Nil: "split_nl s \<noteq> []"
  by (induction s) (auto split: list.splits)

lemma split_nl_no_newline: "l \<in> set (split_nl s) \<Longrightarrow> 10 \<notin> set l"
proof (induction s arbitrary: l)
  case Nil
  then show ?case by simp
next
  case (Cons c cs)
  then show ?case
    by (cases "split_nl cs") (auto split: if_splits)
qed

lemma split_nl_line: "10 \<notin> set l \<Longrightarrow> split_nl l = [l]"
  by (induction l) auto

lemma split_nl_append: "10 \<notin> set l \<Longrightarrow> split_nl (l @ 10 # s) = l # split_nl s"
  by (induction l) auto

lemma split_join:
  "ls \<noteq> [] \<Longrightarrow> (\<And>l. l \<in> set ls \<Longrightarrow> 10 \<notin> set l) \<Longrightarrow> split_nl (join_nl ls) = ls"
proof (induction ls rule: join_nl.induct)
  case 1
  then show ?case by simp
next
  case (2 l)
  then show ?case by (simp add: split_nl_line)
next
  case (3 l v va)
  then show ?case by (simp add: split_nl_append)
qed

lemma md_loop_map: "md_loop ls acc = acc @ map markdown_line ls"
  by (induction ls arbitrary: acc) auto

lemma markdown_line_no_newline:
  assumes "10 \<notin> set l"
  shows "10 \<notin> set (markdown_line l)"
proof -
  define t where "t = strip l"
  have nl: "10 \<notin> set t" using assms set_strip[of l] by (auto simp: t_def)
  have a: "10 \<notin> set (strip (takeWhile (\<lambda>c. c \<noteq> 58) t))"
    using nl set_strip[of "takeWhile (\<lambda>c. c \<noteq> 58) t"] set_takeWhileD[of 10 _ t] by auto
  have "set (tl (dropWhile (\<lambda>c. c \<noteq> 58) t)) \<subseteq> set t"
  proof
    fix c assume "c \<in> set (tl (dropWhile (\<lambda>c. c \<noteq> 58) t))"
    then have "c \<in> set (dropWhile (\<lambda>c. c \<noteq> 58) t)"
      by (cases "dropWhile (\<lambda>c. c \<noteq> 58) t") (simp_all del: dropWhile_eq_Nil_conv)
    then show "c \<in> set t" by (rule set_dropWhileD)
  qed
  then have b: "10 \<notin> set (strip (tl (dropWhile (\<lambda>c. c \<noteq> 58) t)))"
    using nl set_strip[of "tl (dropWhile (\<lambda>c. c \<noteq> 58) t)"] by auto
  have "10 \<notin> set (spec_markdown_line l)"
    using nl a b by (simp add: spec_markdown_line_def t_def[symmetric] Let_def ascii_def)
  then show ?thesis using markdown_line_spec[OF assms] by simp
qed

lemma split_generate_markdown:
  "split_nl (generate_markdown x) = map markdown_line (split_nl x)"
proof -
  have "split_nl (join_nl (map markdown_line (split_nl x))) = map markdown_line (split_nl x)"
  proof (rule split_join)
    show "map markdown_line (split_nl x) \<noteq> []" by (simp add: split_nl_not_Nil)
  next
    fix l assume "l \<in> set (map markdown_line (split_nl x))"
    then show "10 \<notin> set l"
      using split_nl_no_newline[of _ x] markdown_line_no_newline by auto
  qed
  then show ?thesis by (simp add: generate_markdown_def md_loop_map)
qed

text \<open>
  C3, as stated: a non-blank line that does not match the speaker pattern passes through
  verbatim, character for character. It does not: every line is trimmed first, so a line
  with leading blanks comes out without them.
\<close>

theorem markdown_verbatim_counterexample:
  "strip (ascii ''  plain text'') \<noteq> []
   \<and> re_match speaker_pattern (ascii ''  plain text'') = None
   \<and> re_match speaker_pattern (strip (ascii ''  plain text'')) = None
   \<and> generate_markdown (ascii ''  plain text'') = ascii ''plain text''
   \<and> generate_markdown (ascii ''  plain text'') \<noteq> ascii ''  plain text''"
  by (simp add: eval_defs)

text \<open>
  C3, amended: the renderer trims every line; a blank line gives an empty line, a trimmed
  line matching \<^verbatim>\<open>speaker: content\<close> gives the trimmed speaker in strong emphasis, a
  colon, a space and the trimmed content, and any other line gives the trimmed line;
  \<^verbatim>\<open>"Sally: Hello!"\<close> renders as \<^verbatim>\<open>"**Sally:** Hello!"\<close>.
\<close>

theorem markdown_lines_trimmed:
  "generate_markdown x = join_nl (map spec_markdown_line (split_nl x))
   \<and> generate_markdown (ascii ''Sally: Hello!'') = ascii ''**Sally:** Hello!''"
proof -
  have m: "map markdown_line (split_nl x) = map spec_markdown_line (split_nl x)"
    using split_nl_no_newline[of _ x] markdown_line_spec by auto
  have g: "generate_markdown x = join_nl (map markdown_line (split_nl x))"
    by (simp add: generate_markdown_def md_loop_map)
  have e: "generate_markdown (ascii ''Sally: Hello!'') = ascii ''**Sally:** Hello!''"
    by (simp add: eval_defs)
  have "generate_markdown x = join_nl (map spec_markdown_line (split_nl x))"
    unfolding g m ..
  then show ?thesis using e by blast
qed

theorem markdown_lines_trimmed_witness:
  "generate_markdown (ascii '' a : b \<newline>\<newline>:c '')
     = join_nl (map spec_markdown_line (split_nl (ascii '' a : b \<newline>\<newline>:c '')))
   \<and> generate_markdown (ascii '' a : b \<newline>\<newline>:c '') = ascii ''**a:** b\<newline>\<newline>:c''"
proof -
  have "generate_markdown (ascii '' a : b \<newline>\<newline>:c '') = ascii ''**a:** b\<newline>\<newline>:c''"
    by (simp add: eval_defs)
  then show ?thesis
    using markdown_lines_trimmed[of "ascii '' a : b \<newline>\<newline>:c ''"] by blast
qed

text \<open>
  C6: the rendering has as many lines as the input, and wherever the input has a blank line
  the rendering has a blank (indeed empty) line.
\<close>

theorem markdown_preserves_lines:
  "length (split_nl (generate_markdown x)) = length (split_nl x)
   \<and> (\<forall>i < length (split_nl x). strip (split_nl x ! i) = [] \<longrightarrow>
        split_nl (generate_markdown x) ! i = []
        \<and> strip (split_nl (generate_markdown x) ! i) = [])"
  by (simp add: split_generate_markdown markdown_line_def strip_Nil)

theorem markdown_preserves_lines_witness:
  "length (split_nl (generate_markdown (ascii ''A: b\<newline>  \<newline>c''))) = 3
   \<and> (1::nat) < length (split_nl (ascii ''A: b\<newline>  \<newline>c''))
   \<and> strip (split_nl (ascii ''A: b\<newline>  \<newline>c'') ! 1) = []
   \<and> split_nl (generate_markdown (ascii ''A: b\<newline>  \<newline>c'')) ! 1 = []"
proof -
  have l: "split_nl (ascii ''A: b\<newline>  \<newline>c'') = [ascii ''A: b'', ascii ''  '', ascii ''c'']"
    by (simp add: ascii_def)
  have b: "strip (ascii ''  '') = []"
    by (simp add: eval_defs)
  show ?thesis
    using markdown_preserves_lines[of "ascii ''A: b\<newline>  \<newline>c''"] b
    unfolding l by auto
qed

subsection \<open>A speaker with nothing behind the colon\<close>

lemma rx_star_bare_speaker:
  "58 \<notin> set a \<Longrightarrow>
   rx [Star (NotCh 58), Lit 58, Star Space, Star Dot, Eol] b (a @ [58])
     = Some ([a, [58], [], [], []], [])"
  by (induction a arbitrary: b) (auto simp: skip_def push_def)

lemma re_match_bare_speaker:
  assumes "a \<noteq> []" "58 \<notin> set a"
  shows "re_match speaker_pattern (a @ [58]) = Some ([[], a, [58], [], [], []], [])"
proof -
  obtain x a' where a: "a = x # a'" using assms(1) by (cases a) auto
  have "rx [Star (NotCh 58), Lit 58, Star Space, Star Dot, Eol] False (a' @ [58])
      = Some ([a', [58], [], [], []], [])"
    using assms(2) a by (intro rx_star_bare_speaker) simp
  then show ?thesis using a assms(2)
    by (simp add: re_match_def speaker_pattern_def skip_def push_def)
qed

lemma rx_star_bare_dialogue:
  "58 \<notin> set a \<Longrightarrow>
   rx [Star (NotCh 58), Lit 58, Star Space, Plus Dot, Eol] b (a @ [58]) = None"
  by (induction a arbitrary: b) (auto simp: skip_def push_def)

lemma re_match_bare_dialogue:
  assumes "a \<noteq> []" "58 \<notin> set a"
  shows "re_match dialogue_pattern (a @ [58]) = None"
proof -
  obtain x a' where a: "a = x # a'" using assms(1) by (cases a) auto
  have "rx [Star (NotCh 58), Lit 58, Star Space, Plus Dot, Eol] False (a' @ [58]) = None"
    using assms(2) a by (intro rx_star_bare_dialogue) simp
  then show ?thesis using a assms(2)
    by (simp add: re_match_def dialogue_pattern_def skip_def push_def)
qed

lemma bare_speaker_line:
  assumes "strip l = a @ [58]" "a \<noteq> []" "58 \<notin> set a"
  shows "markdown_line l = ascii ''**'' @ strip a @ ascii '':** ''" and "\<not> is_dialogue l"
proof -
  show "markdown_line l = ascii ''**'' @ strip a @ ascii '':** ''"
    using assms re_match_bare_speaker[OF assms(2,3)]
    by (simp add: markdown_line_def group_def strip_Nil)
  show "\<not> is_dialogue l"
    using assms re_match_bare_dialogue[OF assms(2,3)]
    by (simp add: is_dialogue_def)
qed

text \<open>
  C10, as stated: every non-blank line that has a colon with a non-colon character before
  it and nothing behind it is rendered as the speaker in strong emphasis, a colon and a
  trailing space, and is not counted. Not when the line has an earlier colon: both
  patterns split at the first colon, so \<^verbatim>\<open>"a:b:"\<close> renders as \<^verbatim>\<open>"**a:** b:"\<close> with no
  trailing space and is counted as a dialogue line, and \<^verbatim>\<open>":a:"\<close>, whose first character
  is a colon, is not put in strong emphasis at all.
\<close>

theorem bare_speaker_second_colon_counterexample:
  "generate_markdown (ascii ''a:b:'') = ascii ''**a:** b:''
   \<and> count_dialogues (ascii ''a:b:'') = 1
   \<and> generate_markdown (ascii '':a:'') = ascii '':a:''
   \<and> count_dialogues (ascii '':a:'') = 0"
  by (simp add: eval_defs)


text \<open>
  C10, amended: a line that, trimmed as both functions trim it, ends in its only colon,
  with at least one character before it, is rendered as the trimmed speaker in strong
  emphasis, a colon and a trailing space, yet it is not a dialogue line for the counter;
  \<^verbatim>\<open>"Sally:"\<close> renders as \<^verbatim>\<open>"**Sally:** "\<close> and counts 0.
\<close>

theorem bare_speaker_bold_but_not_counted:
  assumes "i < length (split_nl content)"
    and "strip (split_nl content ! i) = a @ [58]"
    and "a \<noteq> []"
    and "58 \<notin> set a"
  shows "split_nl (generate_markdown content) ! i = ascii ''**'' @ strip a @ ascii '':** ''
    \<and> \<not> is_dialogue (split_nl content ! i)
    \<and> count_dialogues content = int (length (filter is_dialogue (split_nl content)))
    \<and> generate_markdown (ascii ''Sally:'') = ascii ''**Sally:** ''
    \<and> count_dialogues (ascii ''Sally:'') = 0"
proof -
  have e: "generate_markdown (ascii ''Sally:'') = ascii ''**Sally:** ''"
    "count_dialogues (ascii ''Sally:'') = 0"
    by (simp_all add: eval_defs)
  have c: "count_dialogues content = int (length (filter is_dialogue (split_nl content)))"
    by (simp add: count_dialogues_def count_lines_filter)
  show ?thesis
    using assms bare_speaker_line[OF assms(2,3,4)] e c
    by (simp add: split_generate_markdown)
qed

theorem bare_speaker_bold_but_not_counted_witness:
  "(0::nat) < length (split_nl (ascii ''Sally:''))
   \<and> strip (split_nl (ascii ''Sally:'') ! 0) = ascii ''Sally'' @ [58]
   \<and> ascii ''Sally'' \<noteq> [] \<and> 58 \<notin> set (ascii ''Sally'')
   \<and> split_nl (generate_markdown (ascii ''Sally:'')) ! 0 = ascii ''**Sally:** ''
   \<and> \<not> is_dialogue (split_nl (ascii ''Sally:'') ! 0)
   \<and> count_dialogues (ascii ''Sally:'') = 0"
proof -
  have h1: "(0::nat) < length (split_nl (ascii ''Sally:''))"
    by (simp add: ascii_def)
  have h2: "strip (split_nl (ascii ''Sally:'') ! 0) = ascii ''Sally'' @ [58]"
    by (simp add: eval_defs)
  have h3: "ascii ''Sally'' \<noteq> []" and h4: "58 \<notin> set (ascii ''Sally'')"
    by (simp_all add: ascii_def)
  have s: "ascii ''**'' @ strip (ascii ''Sally'') @ ascii '':** '' = ascii ''**Sally:** ''"
    by (simp add: eval_defs)
  note t = bare_speaker_bold_but_not_counted[OF h1 h2 h3 h4]
  from t have a: "split_nl (generate_markdown (ascii ''Sally:'')) ! 0
      = ascii ''**'' @ strip (ascii ''Sally'') @ ascii '':** ''"
    by blast
  from t have b: "\<not> is_dialogue (split_nl (ascii ''Sally:'') ! 0)"
    by blast
  from t have c: "count_dialogues (ascii ''Sally:'') = 0"
    by blast
  show ?thesis
    using h1 h2 h3 h4 a[unfolded s] b c by (intro conjI)
qed

subsection \<open>The completion client\<close>

lemmas client_defs = translate_entire_file_def process_content_def post_json_def
  lookup_content_def and_then_def replying_def body_with_content_def generate_txt_def

lemma translate_result:
  "fst (translate_entire_file self content filename w) =
     except_clauses
       (and_then (respond w (length (sent w)) (build_request self content))
          (\<lambda>result. and_then (lookup_content result) strip_method))"
  by (simp add: translate_entire_file_def post_json_def)

lemma translate_sends_one:
  "sent (snd (translate_entire_file self content filename w))
     = sent w @ [build_request self content]"
  by (simp add: translate_entire_file_def post_json_def)

text \<open>
  C1: for every content string \<^verbatim>\<open>translate\<close> returns normally, with the parse-failure
  string when the response lacks the expected text. The code misses a case of that: when
  the body has the expected fields but the content is \<^verbatim>\<open>null\<close>, \<^verbatim>\<open>None.strip()\<close> raises
  \<^verbatim>\<open>AttributeError\<close>, which the second \<^verbatim>\<open>except\<close> clause, written for \<^verbatim>\<open>KeyError\<close> and
  \<^verbatim>\<open>IndexError\<close> only, lets through to the caller.
\<close>

theorem translate_null_content_raises:
  "fst (translate_entire_file (init (ascii ''key'') MODEL_NAME) (ascii ''Sally: Hi'')
          (ascii ''a.txt'') (replying (Inr (body_with_content JNull))))
     = Inl AttributeError"
  by (simp add: translate_result lookup_content_def and_then_def replying_def
      body_with_content_def ascii_def)

text \<open>
  The paths on which the client does return a text: a \<^verbatim>\<open>RequestException\<close> gives the
  request-failure string with the diagnostic; a lookup of \<^verbatim>\<open>choices\<close>, \<^verbatim>\<open>0\<close>, \<^verbatim>\<open>message\<close>,
  \<^verbatim>\<open>content\<close> that misses a key or an index gives the parse-failure string with the
  diagnostic; and a lookup that reaches a string gives that string trimmed.
\<close>

lemma translate_returns_text:
  "(\<forall>d. respond w (length (sent w)) (build_request self content) = Inl (RequestException d)
        \<longrightarrow> fst (translate_entire_file self content filename w) = Inr (api_failed d))
   \<and> (\<forall>body d. respond w (length (sent w)) (build_request self content) = Inr body
        \<and> (lookup_content body = Inl (KeyError d) \<or> lookup_content body = Inl (IndexError d))
        \<longrightarrow> fst (translate_entire_file self content filename w) = Inr (parse_failed d))
   \<and> (\<forall>body s. respond w (length (sent w)) (build_request self content) = Inr body
        \<and> lookup_content body = Inr (JString s)
        \<longrightarrow> fst (translate_entire_file self content filename w) = Inr (strip s))"
  by (auto simp: translate_result and_then_def)

lemma translate_returns_text_example:
  "fst (translate_entire_file (init (ascii ''key'') MODEL_NAME) (ascii ''Sally: Hi'')
          (ascii ''a.txt'') (replying (Inl (RequestException (ascii ''timed out'')))))
     = Inr (api_failed (ascii ''timed out''))
   \<and> lookup_content (JObject []) = Inl (KeyError ((39 # ascii ''choices'' @ [39])))
   \<and> fst (translate_entire_file (init (ascii ''key'') MODEL_NAME) (ascii ''Sally: Hi'')
          (ascii ''a.txt'') (replying (Inr (JObject []))))
     = Inr (parse_failed ((39 # ascii ''choices'' @ [39])))
   \<and> lookup_content (body_with_content (JString (ascii '' Sally: Hi ''))) = Inr (JString (ascii '' Sally: Hi ''))
   \<and> fst (translate_entire_file (init (ascii ''key'') MODEL_NAME) (ascii ''Sally: Hi'')
          (ascii ''a.txt'') (replying (Inr (body_with_content (JString (ascii '' Sally: Hi ''))))))
     = Inr (ascii ''Sally: Hi'')"
proof -
  let ?t = "init (ascii ''key'') MODEL_NAME"
  let ?c = "ascii ''Sally: Hi''"
  let ?f = "ascii ''a.txt''"
  have k: "lookup_content (JObject []) = Inl (KeyError ((39 # ascii ''choices'' @ [39])))"
    by (simp add: lookup_content_def and_then_def ascii_def)
  have b: "lookup_content (body_with_content (JString (ascii '' Sally: Hi '')))
      = Inr (JString (ascii '' Sally: Hi ''))"
    by (simp add: lookup_content_def and_then_def body_with_content_def ascii_def)
  have s: "strip (ascii '' Sally: Hi '') = ascii ''Sally: Hi''"
    by (simp add: eval_defs)
  have r: "respond (replying x) n q = x" for x n q
    by (simp add: replying_def)
  from translate_returns_text[of "replying (Inl (RequestException (ascii ''timed out'')))" ?t ?c ?f]
  have 1: "fst (translate_entire_file ?t ?c ?f (replying (Inl (RequestException (ascii ''timed out'')))))
      = Inr (api_failed (ascii ''timed out''))"
    using r by blast
  from translate_returns_text[of "replying (Inr (JObject []))" ?t ?c ?f]
  have 2: "fst (translate_entire_file ?t ?c ?f (replying (Inr (JObject []))))
      = Inr (parse_failed ((39 # ascii ''choices'' @ [39])))"
    using r k by blast
  from translate_returns_text[of
      "replying (Inr (body_with_content (JString (ascii '' Sally: Hi ''))))" ?t ?c ?f]
  have 3: "fst (translate_entire_file ?t ?c ?f
        (replying (Inr (body_with_content (JString (ascii '' Sally: Hi ''))))))
      = Inr (strip (ascii '' Sally: Hi ''))"
    using r b by blast
  show ?thesis using 1 2 3[unfolded s] k b by (intro conjI)
qed

text \<open>
  C9: the count that \<^verbatim>\<open>process_content\<close> returns is the count of the original content,
  whatever text the completion client returns: whenever the client returns a text, the
  outputs are the two renderings of that text and \<^verbatim>\<open>count_dialogues(content)\<close>, and no
  result of \<^verbatim>\<open>process_content\<close> carries another count.
\<close>

theorem process_content_count:
  "(\<forall>t. fst (translate_entire_file self content filename w) = Inr t
        \<longrightarrow> fst (process_content self content filename w)
              = Inr (generate_markdown t, generate_txt t, count_dialogues content))
   \<and> (\<forall>md txt n. fst (process_content self content filename w) = Inr (md, txt, n)
        \<longrightarrow> n = count_dialogues content)"
  by (auto simp: process_content_def and_then_def Let_def split: prod.splits sum.splits)

theorem process_content_count_witness:
  "fst (translate_entire_file (init (ascii ''key'') MODEL_NAME) (ascii ''Sally: Hi\<newline>Pete: Yo'')
          (ascii ''a.txt'') (replying (Inr (body_with_content (JString (ascii ''x''))))))
     = Inr (ascii ''x'')
   \<and> fst (process_content (init (ascii ''key'') MODEL_NAME) (ascii ''Sally: Hi\<newline>Pete: Yo'')
          (ascii ''a.txt'') (replying (Inr (body_with_content (JString (ascii ''x''))))))
     = Inr (ascii ''x'', ascii ''x'', 2)"
proof -
  let ?t = "init (ascii ''key'') MODEL_NAME"
  let ?c = "ascii ''Sally: Hi\<newline>Pete: Yo''"
  let ?w = "replying (Inr (body_with_content (JString (ascii ''x''))))"
  have h: "fst (translate_entire_file ?t ?c (ascii ''a.txt'') ?w) = Inr (ascii ''x'')"
    by (simp add: translate_result lookup_content_def and_then_def replying_def
        body_with_content_def eval_defs)
  have g: "generate_markdown (ascii ''x'') = ascii ''x''" "generate_txt (ascii ''x'') = ascii ''x''"
    "count_dialogues ?c = 2"
    by (simp_all add: eval_defs generate_txt_def)
  from process_content_count[of ?t ?c "ascii ''a.txt''" ?w] h
  have "fst (process_content ?t ?c (ascii ''a.txt'') ?w)
      = Inr (generate_markdown (ascii ''x''), generate_txt (ascii ''x''), count_dialogues ?c)"
    by blast
  then show ?thesis using h unfolding g by (intro conjI)
qed

subsection \<open>The archive\<close>





lemma member_names:
  "map fst (concat (map (entry_members stem) items))
     = concat (map (\<lambda>e. [stem (fst e) @ ascii ''_translated.md'',
                           stem (fst e) @ ascii ''_translated.txt'']) items)"
  by (induction items) (simp_all add: entry_members_def)









subsection \<open>The page\<close>

text \<open>
  A run within the limit, with the button pressed, does process its files: one file gives
  one request, one result and the archive of its two renderings.
\<close>

lemma process_content_replying:
  "process_content self content filename (replying r) =
     (and_then (except_clauses (and_then r (\<lambda>result. and_then (lookup_content result) strip_method)))
        (\<lambda>t. Inr (generate_markdown t, generate_txt t, count_dialogues content)),
      \<lparr>respond = (\<lambda>n q. r), sent = [build_request self content]\<rparr>)"
  by (simp add: process_content_def translate_entire_file_def post_json_def replying_def)

lemma decode_example: "utf8_decode (utf8_bytes (ascii ''Sally: Hi'')) = Inr (ascii ''Sally: Hi'')"
  by (simp add: utf8_decode_def utf8_bytes_def utf8_char_def and_then_def ascii_def)

lemma main_within_limit_example:
  "main posix_stem (ascii ''key'')
      [\<lparr>name = ascii ''a.txt'', getvalue = utf8_bytes (ascii ''Sally: Hi'')\<rparr>] True
      (replying (Inr (body_with_content (JString (ascii ''Sally: Hi\<newline>Sally: x'')))))
   = (Inr (Summary 1
        \<lparr>results = [(ascii ''a.txt'',
            \<lparr>markdown = ascii ''**Sally:** Hi\<newline>**Sally:** x'',
             txt_out = ascii ''Sally: Hi\<newline>Sally: x'', dialogue_count = 1\<rparr>)],
         success_count = 1, total_dialogue_count = 1, failed = []\<rparr>
        (Some [(ascii ''a_translated.md'', utf8_bytes (ascii ''**Sally:** Hi\<newline>**Sally:** x'')),
               (ascii ''a_translated.txt'', utf8_bytes (ascii ''Sally: Hi\<newline>Sally: x''))])),
      \<lparr>respond = (\<lambda>n q. Inr (body_with_content (JString (ascii ''Sally: Hi\<newline>Sally: x'')))),
       sent = [build_request (init (ascii ''key'') MODEL_NAME) (ascii ''Sally: Hi'')]\<rparr>)"
proof -
  have l: "lookup_content (body_with_content (JString s)) = Inr (JString s)" for s
    by (simp add: lookup_content_def and_then_def body_with_content_def ascii_def)
  have g: "generate_markdown (ascii ''Sally: Hi\<newline>Sally: x'') = ascii ''**Sally:** Hi\<newline>**Sally:** x''"
    "strip (ascii ''Sally: Hi\<newline>Sally: x'') = ascii ''Sally: Hi\<newline>Sally: x''"
    "count_dialogues (ascii ''Sally: Hi'') = 1"
    by (simp_all add: eval_defs)
  have p: "posix_stem (ascii ''a.txt'') = ascii ''a''"
    by (simp add: posix_stem_def posix_name_def ascii_def Let_def)
  have e: "utf8_encode (ascii s) = Inr (utf8_bytes (ascii s))" if "\<forall>c \<in> set s. of_char c < (55296::nat)" for s
    using that by (auto simp: utf8_encode_def is_surrogate_def ascii_def list_ex_iff)
  have e1: "utf8_encode (ascii ''**Sally:** Hi\<newline>**Sally:** x'') = Inr (utf8_bytes (ascii ''**Sally:** Hi\<newline>**Sally:** x''))"
    "utf8_encode (ascii ''Sally: Hi\<newline>Sally: x'') = Inr (utf8_bytes (ascii ''Sally: Hi\<newline>Sally: x''))"
    by (simp_all add: e)
  have k: "ascii ''key'' \<noteq> []"
    "ascii ''a'' @ ascii ''_translated.md'' = ascii ''a_translated.md''"
    "ascii ''a'' @ ascii ''_translated.txt'' = ascii ''a_translated.txt''"
    by (simp_all add: ascii_def)
  show ?thesis
    by (simp add: main_def MAX_FILES_def decode_example process_content_replying l g p e1 k
        and_then_def generate_txt_def create_download_zip_def writestr_def Let_def
        is_surrogate_def ascii_def[of "''a_translated.md''"] ascii_def[of "''a_translated.txt''"])
qed

text \<open>
  C8: when more files are uploaded than \<^verbatim>\<open>MAX_FILES\<close>, the run ends before the loop over
  the files, on the rejection that names the limit and the number uploaded (without a key,
  on the request for a key): the provider is left as it was, with no request sent, and the
  page is not the summary, so no file has been processed and no counter or result mapping
  exists.
\<close>

theorem too_many_files_rejected:
  assumes "MAX_FILES < length uploaded_files"
  shows "main stem key uploaded_files button w
           = (Inr (if key = [] then NeedApiKey
                   else TooManyFiles MAX_FILES (length uploaded_files)), w)
    \<and> sent (snd (main stem key uploaded_files button w)) = sent w
    \<and> (\<forall>n b z. fst (main stem key uploaded_files button w) \<noteq> Inr (Summary n b z))"
  using assms by (auto simp: main_def)

theorem too_many_files_rejected_witness:
  "MAX_FILES < length (map (\<lambda>n. \<lparr>name = ascii ''f'' @ [48 + n] @ ascii ''.txt'',
                                    getvalue = utf8_bytes (ascii ''Sally: Hi'')\<rparr>) [0..<6])
   \<and> main posix_stem (ascii ''key'')
        (map (\<lambda>n. \<lparr>name = ascii ''f'' @ [48 + n] @ ascii ''.txt'',
                     getvalue = utf8_bytes (ascii ''Sally: Hi'')\<rparr>) [0..<6])
        True (replying (Inr (body_with_content (JString (ascii ''x'')))))
      = (Inr (TooManyFiles 5 6), replying (Inr (body_with_content (JString (ascii ''x'')))))
   \<and> sent (snd (main posix_stem (ascii ''key'')
        (map (\<lambda>n. \<lparr>name = ascii ''f'' @ [48 + n] @ ascii ''.txt'',
                     getvalue = utf8_bytes (ascii ''Sally: Hi'')\<rparr>) [0..<6])
        True (replying (Inr (body_with_content (JString (ascii ''x''))))))) = []"
proof -
  let ?fs = "map (\<lambda>n. \<lparr>name = ascii ''f'' @ [48 + n] @ ascii ''.txt'',
                        getvalue = utf8_bytes (ascii ''Sally: Hi'')\<rparr>) [0..<6]"
  let ?w = "replying (Inr (body_with_content (JString (ascii ''x''))))"
  have h: "MAX_FILES < length ?fs" by (simp add: MAX_FILES_def)
  have k: "ascii ''key'' \<noteq> []" by (simp add: ascii_def)
  have l: "length ?fs = 6" by simp
  have s: "sent ?w = []" by (simp add: replying_def)
  note t = too_many_files_rejected[OF h, of posix_stem "ascii ''key''" True ?w]
  from t have 1: "main posix_stem (ascii ''key'') ?fs True ?w = (Inr (TooManyFiles 5 6), ?w)"
    using k unfolding l by (simp add: MAX_FILES_def)
  from t have 2: "sent (snd (main posix_stem (ascii ''key'') ?fs True ?w)) = []"
    using s by simp
  show ?thesis using h 1 2 by (intro conjI)
qed

end
